theory Spec2Isabelle
  imports Main
begin

unbundle bit_operations_syntax

section \<open>The style linter (linter.c)\<close>

text \<open>
  A shallow embedding of \<^verbatim>\<open>linter.c\<close>. A line is the byte string that
  \<^verbatim>\<open>getline\<close> hands to \<^verbatim>\<open>lint_line\<close> (its terminator included); C strings
  are byte lists read up to their first NUL. The counters of the C program are \<^verbatim>\<open>int\<close>;
  they are modelled as unbounded integers, so files of more than \<open>2^31\<close> lines are outside
  the model. Plain \<^verbatim>\<open>char\<close> is taken as signed, as on the platforms the tool is built on.
\<close>

subsection \<open>Characters and C strings\<close>

abbreviation NUL :: char where "NUL \<equiv> CHR 0x00"
abbreviation TAB :: char where "TAB \<equiv> CHR 0x09"
abbreviation NL :: char where "NL \<equiv> CHR 0x0A"
abbreviation SP :: char where "SP \<equiv> CHR 0x20"
abbreviation DQUOTE :: char where "DQUOTE \<equiv> CHR 0x22"
abbreviation SQUOTE :: char where "SQUOTE \<equiv> CHR 0x27"
abbreviation BACKSLASH :: char where "BACKSLASH \<equiv> CHR 0x5C"

text \<open>The value of a byte read through \<^verbatim>\<open>unsigned char\<close> and through \<^verbatim>\<open>char\<close>.\<close>

definition uchar :: "char \<Rightarrow> int" where
  "uchar c = of_char c"

definition schar :: "char \<Rightarrow> int" where
  "schar c = (if uchar c < 128 then uchar c else uchar c - 256)"

text \<open>The byte at the head of a C string; past the end stands the terminator.\<close>

fun peek :: "string \<Rightarrow> char" where
  "peek [] = NUL"
| "peek (c # cs) = c"

text \<open>The contents of a NUL-terminated buffer.\<close>

definition cstr :: "string \<Rightarrow> string" where
  "cstr s = takeWhile (\<lambda>c. c \<noteq> NUL) s"

text \<open>
  \<^verbatim>\<open>strncmp(s, t, n)\<close>: at most \<open>n\<close> bytes are compared, as unsigned bytes, and the
  comparison stops after a terminator that both strings share.
\<close>

fun strncmp :: "string \<Rightarrow> string \<Rightarrow> nat \<Rightarrow> int" where
  "strncmp s t 0 = 0"
| "strncmp s t (Suc n) =
     (if peek s \<noteq> peek t then uchar (peek s) - uchar (peek t)
      else if peek s = NUL then 0
      else strncmp (tl s) (tl t) n)"

text \<open>\<^verbatim>\<open>strncpy(dst, src, n); dst[n] = '\0'\<close>, read back as a C string.\<close>

definition strncpy :: "string \<Rightarrow> nat \<Rightarrow> string" where
  "strncpy src n = cstr (take n src)"

text \<open>\<^verbatim>\<open>printf("%d", n)\<close>.\<close>

fun show_nat :: "nat \<Rightarrow> string" where
  "show_nat n =
     (if n < 10 then [''0123456789'' ! n]
      else show_nat (n div 10) @ [''0123456789'' ! (n mod 10)])"

declare show_nat.simps [simp del]

definition show_int :: "int \<Rightarrow> string" where
  "show_int n = (if n < 0 then CHR ''-'' # show_nat (nat (- n)) else show_nat (nat n))"

subsection \<open>Indentation rules\<close>

definition MAX_COLUMNS :: nat where "MAX_COLUMNS = 80"
definition MAX_DEPTH :: nat where "MAX_DEPTH = 64"

definition NO_ALIGN_COMMENT :: string where
  "NO_ALIGN_COMMENT = ''; NOALIGN'' @ [NL]"

type_synonym IndentRules = int

definition IR_DEFAULT :: IndentRules where "IR_DEFAULT = 0"
definition IR_SPECIAL :: IndentRules where "IR_SPECIAL = 1"
definition IR_WRAPPER :: IndentRules where "IR_WRAPPER = 2"
definition IR_UNIFORM :: IndentRules where "IR_UNIFORM = 4"

definition INDENT_RULES :: "(string \<times> IndentRules) list" where
  "INDENT_RULES =
    [(''SICP'', IR_WRAPPER),
     (''begin'', IR_SPECIAL OR IR_UNIFORM),
     (''cond'', IR_SPECIAL OR IR_UNIFORM),
     (''library'', IR_SPECIAL OR IR_WRAPPER),
     (''Chapter'', IR_SPECIAL),
     (''Exercise'', IR_SPECIAL),
     (''Section'', IR_SPECIAL),
     (''case'', IR_SPECIAL),
     (''define'', IR_SPECIAL),
     (''define-record-type'', IR_SPECIAL),
     (''define-syntax'', IR_SPECIAL),
     (''lambda'', IR_SPECIAL),
     (''let'', IR_SPECIAL),
     (''let*'', IR_SPECIAL),
     (''let-syntax'', IR_SPECIAL),
     (''let-values'', IR_SPECIAL),
     (''letrec'', IR_SPECIAL),
     (''parameterize'', IR_SPECIAL),
     (''syntax-case'', IR_SPECIAL),
     (''syntax-rules'', IR_SPECIAL),
     (''unless'', IR_SPECIAL),
     (''when'', IR_SPECIAL),
     (''with-mutex'', IR_SPECIAL),
     (''with-syntax'', IR_SPECIAL)]"

text \<open>The \<^verbatim>\<open>for\<close> loop of \<^verbatim>\<open>lookup_indent_rules\<close> over the table rows that remain.\<close>

fun lookup_rows :: "(string \<times> IndentRules) list \<Rightarrow> string \<Rightarrow> nat \<Rightarrow> nat \<Rightarrow> IndentRules" where
  "lookup_rows [] s start len = IR_DEFAULT"
| "lookup_rows ((name, rules) # rows) s start len =
     (if strncmp s name len = 0
      then (if start \<noteq> 1 then rules AND NOT IR_WRAPPER else rules)
      else lookup_rows rows s start len)"

definition lookup_indent_rules :: "string \<Rightarrow> nat \<Rightarrow> nat \<Rightarrow> IndentRules" where
  "lookup_indent_rules line start len = lookup_rows INDENT_RULES (drop start line) start len"

subsection \<open>Import blocks and the ordering comparators\<close>

datatype ImportBlock = IB_NONE | IB_SEC | IB_USE | IB_ID

text \<open>\<^verbatim>\<open>import_mode++\<close> and \<^verbatim>\<open>import_mode--\<close>, at the values where the code runs them.\<close>

fun ib_incr :: "ImportBlock \<Rightarrow> ImportBlock" where
  "ib_incr IB_NONE = IB_SEC"
| "ib_incr IB_SEC = IB_USE"
| "ib_incr IB_USE = IB_ID"
| "ib_incr IB_ID = IB_ID"

fun ib_decr :: "ImportBlock \<Rightarrow> ImportBlock" where
  "ib_decr IB_ID = IB_USE"
| "ib_decr IB_USE = IB_SEC"
| "ib_decr IB_SEC = IB_NONE"
| "ib_decr IB_NONE = IB_NONE"

definition lookup_import_block :: "string \<Rightarrow> nat \<Rightarrow> nat \<Rightarrow> ImportBlock" where
  "lookup_import_block line start len =
     (let s = drop start line in
      if start = 1 \<and> (strncmp s ''Chapter'' len = 0
                      \<or> strncmp s ''Section'' len = 0
                      \<or> strncmp s ''Exercise'' len = 0) then IB_SEC
      else if start = 3 \<and> strncmp s ''use'' len = 0 then IB_USE
      else IB_NONE)"

text \<open>
  The loop of \<^verbatim>\<open>correct_id_order\<close>: \<open>p\<close> is what is left of \<^verbatim>\<open>prev\<close> before its
  terminator, \<open>q\<close> what is left of the \<^verbatim>\<open>len\<close> bytes of the current id, \<open>first\<close> says
  that \<^verbatim>\<open>i == 0\<close>. The second equation is the code after the loop.
\<close>

fun id_order_loop :: "string \<Rightarrow> string \<Rightarrow> bool \<Rightarrow> int \<Rightarrow> bool" where
  "id_order_loop (ci # p) (cj # q) first cmp =
     (if first \<and> ci \<noteq> cj then schar ci < schar cj
      else if ci = CHR ''.'' \<and> cj = CHR ''.'' then
        (if cmp \<noteq> 0 then cmp < 0 else id_order_loop p q False 0)
      else if ci = CHR ''.'' then False
      else if cj = CHR ''.'' then True
      else id_order_loop p q False (if cmp = 0 then schar ci - schar cj else cmp))"
| "id_order_loop p q first cmp =
     (let ei = (p = []);
          ej = (q = []);
          ci = (if ei then CHR ''.'' else hd p);
          cj = (if ej then CHR ''.'' else hd q)
      in if ci = CHR ''.'' \<and> cj = CHR ''.'' \<and> cmp \<noteq> 0 then cmp < 0 else ei)"

definition correct_id_order :: "string \<Rightarrow> string \<Rightarrow> nat \<Rightarrow> nat \<Rightarrow> bool" where
  "correct_id_order prev line start len =
     id_order_loop (cstr prev) (take len (drop start line)) True 0"

definition correct_name_order :: "string \<Rightarrow> string \<Rightarrow> nat \<Rightarrow> nat \<Rightarrow> bool" where
  "correct_name_order prev line start len = (strncmp prev (drop start line) len < 0)"

subsection \<open>The linter state\<close>

text \<open>
  One line of standard output, \<^verbatim>\<open>filename:line:column: message\<close>, as \<^verbatim>\<open>fail\<close>
  prints it; the column is already the one-based one.
\<close>

record diag =
  d_file :: string
  d_line :: int
  d_col :: nat
  d_msg :: string

text \<open>
  \<^verbatim>\<open>struct State\<close>, and with it what the file's scan has printed so far. The stack
  holds \<^verbatim>\<open>uint8_t\<close> entries, \<open>MAX_DEPTH\<close> of them.
\<close>

record State =
  filename :: string
  lineno :: int
  status :: int
  prev_blanks :: int
  in_string :: bool
  num_wrappers :: int
  quoted_align :: int
  depth :: int
  stack :: "nat list"
  import_mode :: ImportBlock
  last_import_id :: string
  last_import_name :: string
  printed :: "diag list"

definition fail :: "'a State_scheme \<Rightarrow> nat \<Rightarrow> string \<Rightarrow> 'a State_scheme" where
  "fail state column msg =
     state\<lparr>printed := printed state @
              [\<lparr>d_file = filename state, d_line = lineno state,
                d_col = column + 1, d_msg = msg\<rparr>],
           status := 1\<rparr>"

text \<open>
  What stops the process instead of returning: a failed \<^verbatim>\<open>assert\<close>, an access to
  \<^verbatim>\<open>stack\<close> outside its \<open>MAX_DEPTH\<close> entries, a copy beyond the \<open>MAX_COLUMNS\<close> bytes of
  an import buffer.
\<close>

datatype error =
    Assert_line_len
  | Assert_newline
  | Assert_depth_nonneg
  | Assert_depth_max
  | Stack_out_of_bounds
  | Import_buffer_overflow

definition in_stack :: "int \<Rightarrow> bool" where
  "in_stack d = (0 \<le> d \<and> d < int MAX_DEPTH)"

subsection \<open>The scanner's local variables\<close>

datatype Mode = INDENT | NORMAL | OPERATOR | STRING | COMMENT | COMMENT_SPACE

record Scan = State +
  mode :: Mode
  prev :: char
  escaped :: bool
  two_spaces :: bool
  word_start :: nat

text \<open>The end of one iteration of the loop, after the \<^verbatim>\<open>switch\<close>.\<close>

definition advance :: "nat \<Rightarrow> char \<Rightarrow> Scan \<Rightarrow> Scan" where
  "advance i c sc =
     (let sc1 = (if mode sc = NORMAL \<and> prev sc = SP \<and> c \<noteq> SP
                 then sc\<lparr>word_start := i\<rparr> else sc)
      in sc1\<lparr>prev := c, escaped := (if c = BACKSLASH then \<not> escaped sc1 else False)\<rparr>)"

subsection \<open>The cases of the scanner\<close>

text \<open>\<^verbatim>\<open>case INDENT\<close>, at the first character that is not a space.\<close>

definition indent_check :: "bool \<Rightarrow> nat \<Rightarrow> Scan \<Rightarrow> error + Scan" where
  "indent_check no_align i sc =
     (if no_align then Inr sc
      else if \<not> in_stack (depth sc) then Inl Stack_out_of_bounds
      else if i \<noteq> stack sc ! nat (depth sc) then
        (if i = 0 \<and> depth sc = num_wrappers sc then
           Inr (sc\<lparr>stack := (stack sc)[nat (depth sc) := 0]\<rparr>)
         else if int i = quoted_align sc then
           Inr (sc\<lparr>stack := (stack sc)[nat (depth sc) := nat (quoted_align sc) mod 256],
                    quoted_align := - 1\<rparr>)
         else Inr (fail sc i ''incorrect indentation''))
      else Inr sc)"

text \<open>\<^verbatim>\<open>case '(': case '['\<close>.\<close>

definition before_open_ok :: "char \<Rightarrow> bool" where
  "before_open_ok p =
     (p = SP \<or> p = CHR ''#'' \<or> p = SQUOTE \<or> p = CHR ''('' \<or> p = CHR '','' \<or>
      p = CHR ''@'' \<or> p = CHR ''['' \<or> p = CHR 0x60)"

definition open_paren :: "nat \<Rightarrow> Scan \<Rightarrow> error + Scan" where
  "open_paren i sc =
     (let d = depth sc + 1 in
      if \<not> in_stack d then Inl Stack_out_of_bounds
      else
        let sc1 = sc\<lparr>mode := OPERATOR, depth := d,
                     stack := (stack sc)[nat d := (i + 1) mod 256]\<rparr>;
            sc2 = (if i > 0 \<and> \<not> before_open_ok (prev sc1)
                   then fail sc1 i (''expected space before '' @ [SQUOTE, CHR ''('', SQUOTE])
                   else sc1)
        in Inr (sc2\<lparr>quoted_align :=
                  (if prev sc2 = SQUOTE \<or>
                      (quoted_align sc2 \<noteq> - 1 \<and> (prev sc2 = CHR ''('' \<or> prev sc2 = CHR ''[''))
                   then int i + 1 else - 1)\<rparr>))"

text \<open>
  The two places that compare an import name with the last one: at a closing delimiter
  the last name is cleared, at a space or line end the new name is stored.
\<close>

definition name_order_msg :: "string \<Rightarrow> string \<Rightarrow> nat \<Rightarrow> nat \<Rightarrow> string" where
  "name_order_msg lastv line start len =
     ''incorrect import name ordering: '' @ lastv @ '' > '' @ strncpy (drop start line) len"

definition id_order_msg :: "string \<Rightarrow> string \<Rightarrow> nat \<Rightarrow> nat \<Rightarrow> string" where
  "id_order_msg lastv line start len =
     ''incorrect import id ordering: '' @ lastv @ '' > '' @ strncpy (drop start line) len"

definition check_name :: "string \<Rightarrow> nat \<Rightarrow> Scan \<Rightarrow> Scan" where
  "check_name line i sc =
     (let start = word_start sc; len = i - start in
      if \<not> correct_name_order (last_import_name sc) line start len
      then fail sc start (name_order_msg (last_import_name sc) line start len)
      else sc)"

text \<open>\<^verbatim>\<open>case ')': case ']'\<close>: the checks and the pop, then the import block that ends.\<close>

definition close_checks :: "nat \<Rightarrow> Scan \<Rightarrow> Scan" where
  "close_checks i sc =
     (let sc1 = sc\<lparr>mode := NORMAL\<rparr>;
          sc2 = (if i \<noteq> 0 \<and> depth sc1 = num_wrappers sc1
                 then fail sc1 i (''expected '' @ [SQUOTE, CHR '')'', SQUOTE] @
                                  '' at start of line for wrapper'')
                 else sc1);
          sc3 = (if prev sc2 = SP
                 then fail sc2 i (''unexpected space before '' @ [SQUOTE, CHR '')'', SQUOTE])
                 else sc2)
      in sc3\<lparr>depth := depth sc3 - 1\<rparr>)"

definition close_import :: "string \<Rightarrow> nat \<Rightarrow> Scan \<Rightarrow> Scan" where
  "close_import line i sc =
     (if import_mode sc \<noteq> IB_NONE then
        (let sc1 = (if import_mode sc = IB_ID
                    then (check_name line i sc)\<lparr>last_import_name := []\<rparr>
                    else if import_mode sc = IB_USE then sc\<lparr>last_import_id := []\<rparr>
                    else sc)
         in sc1\<lparr>import_mode := ib_decr (import_mode sc1)\<rparr>)
      else sc)"

definition close_paren :: "string \<Rightarrow> nat \<Rightarrow> Scan \<Rightarrow> Scan" where
  "close_paren line i sc = close_import line i (close_checks i sc)"

text \<open>
  \<^verbatim>\<open>case ' ': case '\n'\<close> in \<^verbatim>\<open>OPERATOR\<close> mode: the operator is complete. Its start
  is the stack entry written at the opening delimiter, to the left on this line, so
  \<open>start \<le> i\<close> whenever the scanner gets here. First the rules of the operator are
  applied to the entry \<open>d\<close> of the stack, then the import block is entered.
\<close>

definition apply_rules :: "IndentRules \<Rightarrow> nat \<Rightarrow> nat \<Rightarrow> char \<Rightarrow> Scan \<Rightarrow> Scan" where
  "apply_rules rules d i c sc =
     (let sc1 = (if rules AND IR_WRAPPER \<noteq> 0
                 then sc\<lparr>num_wrappers := num_wrappers sc + 1\<rparr> else sc);
          bump = (\<lambda>s :: Scan. s\<lparr>stack := (stack s)[d := (stack s ! d + 1) mod 256]\<rparr>)
      in if c = SP then
           (if rules AND IR_SPECIAL \<noteq> 0 \<and> rules AND IR_UNIFORM = 0
            then bump sc1
            else sc1\<lparr>stack := (stack sc1)[d := (i + 1) mod 256]\<rparr>)
         else (if rules AND IR_SPECIAL \<noteq> 0 then bump sc1 else sc1))"

definition enter_import :: "string \<Rightarrow> nat \<Rightarrow> nat \<Rightarrow> Scan \<Rightarrow> error + Scan" where
  "enter_import line start len sc =
     (let block = lookup_import_block line start len
      in case import_mode sc of
           IB_NONE \<Rightarrow>
             Inr (if block = IB_SEC then sc\<lparr>import_mode := ib_incr (import_mode sc)\<rparr>
                  else sc)
         | IB_SEC \<Rightarrow>
             Inr (if block = IB_USE then sc\<lparr>import_mode := ib_incr (import_mode sc)\<rparr>
                  else sc)
         | IB_USE \<Rightarrow>
             (let sc1 = sc\<lparr>import_mode := ib_incr (import_mode sc)\<rparr>;
                  sc2 = (if \<not> correct_id_order (last_import_id sc1) line start len
                         then fail sc1 start (id_order_msg (last_import_id sc1) line start len)
                         else sc1)
              in if len \<ge> MAX_COLUMNS then Inl Import_buffer_overflow
                 else Inr (sc2\<lparr>last_import_id := strncpy (drop start line) len\<rparr>))
         | IB_ID \<Rightarrow> Inr sc)"

definition classify_operator :: "string \<Rightarrow> nat \<Rightarrow> char \<Rightarrow> Scan \<Rightarrow> error + Scan" where
  "classify_operator line i c sc =
     (if \<not> in_stack (depth sc) then Inl Stack_out_of_bounds
      else
        let d = nat (depth sc);
            start = stack sc ! d;
            len = i - start;
            rules = lookup_indent_rules line start len
        in enter_import line start len (apply_rules rules d i c (sc\<lparr>mode := NORMAL\<rparr>)))"

text \<open>\<^verbatim>\<open>case ' ': case '\n'\<close> outside \<^verbatim>\<open>OPERATOR\<close> mode, inside an id block.\<close>

definition store_name :: "string \<Rightarrow> nat \<Rightarrow> Scan \<Rightarrow> error + Scan" where
  "store_name line i sc =
     (let start = word_start sc; len = i - start; sc1 = check_name line i sc in
      if len \<ge> MAX_COLUMNS then Inl Import_buffer_overflow
      else Inr (sc1\<lparr>last_import_name := strncpy (drop start line) len\<rparr>))"

definition space_or_newline :: "string \<Rightarrow> nat \<Rightarrow> char \<Rightarrow> Scan \<Rightarrow> error + Scan" where
  "space_or_newline line i c sc =
     (let sc1 = (if c = SP \<and> prev sc = SP then sc\<lparr>two_spaces := True\<rparr> else sc) in
      if mode sc1 = OPERATOR then classify_operator line i c sc1
      else if import_mode sc1 = IB_ID then store_name line i sc1
      else Inr sc1)"

text \<open>
  \<^verbatim>\<open>case NORMAL: case OPERATOR\<close>: the check for two spaces in a row, then the
  \<^verbatim>\<open>switch\<close> on the character.
\<close>

definition two_spaces_check :: "nat \<Rightarrow> char \<Rightarrow> Scan \<Rightarrow> Scan" where
  "two_spaces_check i c sc =
     (if two_spaces sc \<and> c \<noteq> SP \<and> c \<noteq> CHR '';''
      then fail (sc\<lparr>two_spaces := False\<rparr>) i ''unexpected two spaces in a row''
      else sc)"

definition comment_start :: "nat \<Rightarrow> Scan \<Rightarrow> Scan" where
  "comment_start i sc =
     (let sc1 = sc\<lparr>mode := COMMENT\<rparr> in
      if prev sc1 \<noteq> SP
      then fail sc1 i (''expected space before '' @ [SQUOTE, CHR '';'', SQUOTE])
      else sc1)"

definition code_char :: "string \<Rightarrow> nat \<Rightarrow> char \<Rightarrow> Scan \<Rightarrow> error + Scan" where
  "code_char line i c sc =
     (let sc1 = two_spaces_check i c sc
      in if c = DQUOTE then Inr (sc1\<lparr>mode := STRING, in_string := True\<rparr>)
         else if c = CHR '';'' then Inr (comment_start i sc1)
         else if c = CHR ''('' \<or> c = CHR ''['' then open_paren i sc1
         else if c = CHR '')'' \<or> c = CHR '']'' then Inr (close_paren line i sc1)
         else if c = SP \<or> c = NL then space_or_newline line i c sc1
         else Inr sc1)"

text \<open>\<^verbatim>\<open>case COMMENT_SPACE\<close>, which returns from \<^verbatim>\<open>lint_line\<close>.\<close>

definition comment_space :: "nat \<Rightarrow> char \<Rightarrow> Scan \<Rightarrow> Scan" where
  "comment_space i c sc =
     (if c \<noteq> SP then fail sc i (''expected space after '' @ [SQUOTE, CHR '';'', SQUOTE])
      else sc)"

text \<open>One iteration of the loop: either the scan goes on, or \<^verbatim>\<open>lint_line\<close> returns.\<close>

datatype step = Next Scan | Stop Scan

definition go_on :: "nat \<Rightarrow> char \<Rightarrow> error + Scan \<Rightarrow> error + step" where
  "go_on i c r = (case r of Inl e \<Rightarrow> Inl e | Inr sc \<Rightarrow> Inr (Next (advance i c sc)))"

definition tab_check :: "nat \<Rightarrow> char \<Rightarrow> Scan \<Rightarrow> Scan" where
  "tab_check i c sc =
     (if c = TAB
      then fail sc i (''illegal character '' @ [SQUOTE, BACKSLASH, CHR ''t'', SQUOTE])
      else sc)"

definition scan_char :: "bool \<Rightarrow> string \<Rightarrow> nat \<Rightarrow> char \<Rightarrow> Scan \<Rightarrow> error + step" where
  "scan_char no_align line i c sc0 =
     (let sc = tab_check i c sc0
      in case mode sc of
           INDENT \<Rightarrow>
             (if c = SP then Inr (Next (advance i c sc))
              else case indent_check no_align i sc of
                     Inl e \<Rightarrow> Inl e
                   | Inr sc1 \<Rightarrow> go_on i c (code_char line i c (sc1\<lparr>mode := NORMAL\<rparr>)))
         | NORMAL \<Rightarrow> go_on i c (code_char line i c sc)
         | OPERATOR \<Rightarrow> go_on i c (code_char line i c sc)
         | STRING \<Rightarrow>
             Inr (Next (advance i c
               (if \<not> escaped sc \<and> c = DQUOTE then sc\<lparr>mode := NORMAL, in_string := False\<rparr>
                else sc)))
         | COMMENT \<Rightarrow>
             (if c = CHR '';'' then Inr (Next (advance i c (sc\<lparr>mode := COMMENT_SPACE\<rparr>)))
              else Inr (Stop (comment_space i c sc)))
         | COMMENT_SPACE \<Rightarrow> Inr (Stop (comment_space i c sc)))"

text \<open>The loop over the characters \<open>cs\<close> of the line from index \<open>i\<close> on.\<close>

fun scan_loop :: "bool \<Rightarrow> string \<Rightarrow> nat \<Rightarrow> string \<Rightarrow> Scan \<Rightarrow> error + State" where
  "scan_loop no_align line i [] sc = Inr (State.truncate sc)"
| "scan_loop no_align line i (c # cs) sc =
     (case scan_char no_align line i c sc of
        Inl e \<Rightarrow> Inl e
      | Inr (Stop sc') \<Rightarrow> Inr (State.truncate sc')
      | Inr (Next sc') \<Rightarrow> scan_loop no_align line (Suc i) cs sc')"

subsection \<open>One line\<close>

text \<open>Step 1 of \<^verbatim>\<open>lint_line\<close> on a line that holds only its terminator.\<close>

definition blank_line :: "State \<Rightarrow> State" where
  "blank_line state =
     (let st1 = (if \<not> in_string state \<and> prev_blanks state = 1
                 then fail state 0 ''multiple blank lines'' else state)
      in st1\<lparr>prev_blanks := prev_blanks st1 + 1\<rparr>)"

text \<open>
  \<^verbatim>\<open>for (i = 1; line[i] == ';'; i++);\<close> with \<open>cs\<close> the line from index \<open>i\<close> on.
\<close>

fun semicolon_run :: "string \<Rightarrow> nat \<Rightarrow> nat" where
  "semicolon_run [] i = i"
| "semicolon_run (c # cs) i = (if c = CHR '';'' then semicolon_run cs (Suc i) else i)"

text \<open>The body of \<^verbatim>\<open>if (line[0] == ';')\<close>.\<close>

definition comment_line :: "State \<Rightarrow> string \<Rightarrow> State" where
  "comment_line state line =
     (let i = semicolon_run (tl line) 1;
          st1 = (if i > 3 then fail state 0 ''too many semicolons''
                 else if i = 3 \<and> lineno state \<noteq> 1 then
                   fail state 0 ([SQUOTE] @ '';;;'' @ [SQUOTE] @
                                 '' only allowed on first line copyright'')
                 else state);
          c = peek (drop i line)
      in if c \<noteq> NL \<and> c \<noteq> SP
         then fail st1 i (''missing space after '' @ [SQUOTE, CHR '';'', SQUOTE])
         else st1)"

definition line_too_long_msg :: "nat \<Rightarrow> string" where
  "line_too_long_msg line_len =
     ''line too long: '' @ show_int (int line_len) @ '' > '' @ show_int (int MAX_COLUMNS)"

definition start_scan :: "State \<Rightarrow> Scan" where
  "start_scan state =
     State.extend state
       (Scan.fields (if in_string state then STRING else INDENT) NUL False False 0)"

text \<open>The checks of line length and trailing whitespace in step 1.\<close>

definition length_checks :: "State \<Rightarrow> string \<Rightarrow> State" where
  "length_checks state line =
     (let line_len = length line;
          st1 = state\<lparr>prev_blanks := 0\<rparr>;
          st2 = (if line_len - 1 > MAX_COLUMNS
                 then fail st1 (MAX_COLUMNS - 1) (line_too_long_msg line_len)
                 else st1)
      in if line ! (line_len - 2) = SP
         then fail st2 (line_len - 2) ''trailing whitespace''
         else st2)"

definition lint_line :: "State \<Rightarrow> string \<Rightarrow> error + State" where
  "lint_line state line =
     (let line_len = length line in
      if \<not> line_len > 0 then Inl Assert_line_len
      else if line ! (line_len - 1) \<noteq> NL then Inl Assert_newline
      else if \<not> depth state \<ge> 0 then Inl Assert_depth_nonneg
      else if \<not> depth state < int MAX_DEPTH then Inl Assert_depth_max
      else if line_len = 1 then Inr (blank_line state)
      else
        let st3 = length_checks state line
        in if line ! 0 = CHR '';'' then Inr (comment_line st3 line)
           else
             let na_len = length NO_ALIGN_COMMENT;
                 no_align = (line_len \<ge> na_len \<and>
                             strncmp (drop (line_len - na_len) line) NO_ALIGN_COMMENT na_len = 0)
             in scan_loop no_align line 0 line (start_scan st3))"

text \<open>What a call has printed: the diagnostics of \<open>st'\<close> that \<open>st\<close> did not have yet.\<close>

definition emitted :: "State \<Rightarrow> State \<Rightarrow> diag list" where
  "emitted st st' = drop (length (printed st)) (printed st')"

subsection \<open>One file, and the command line\<close>

definition init_state :: "string \<Rightarrow> State" where
  "init_state name =
     \<lparr>filename = name, lineno = 1, status = 0, prev_blanks = 0, in_string = False,
      num_wrappers = 0, quoted_align = 0, depth = 0, stack = replicate MAX_DEPTH 0,
      import_mode = IB_NONE, last_import_id = [], last_import_name = [], printed = []\<rparr>"

text \<open>The lines that successive calls of \<^verbatim>\<open>getline\<close> return for a file's bytes.\<close>

fun getlines :: "string \<Rightarrow> string list" where
  "getlines [] = []"
| "getlines (c # cs) =
     (if c = NL then [c] # getlines cs
      else case getlines cs of [] \<Rightarrow> [[c]] | l # ls \<Rightarrow> (c # l) # ls)"

text \<open>The \<^verbatim>\<open>while\<close> loop of \<^verbatim>\<open>lint\<close>.\<close>

fun lint_lines :: "State \<Rightarrow> string list \<Rightarrow> error + State" where
  "lint_lines state [] = Inr state"
| "lint_lines state (line # rest) =
     (case lint_line state line of
        Inl e \<Rightarrow> Inl e
      | Inr st \<Rightarrow> lint_lines (st\<lparr>lineno := lineno st + 1\<rparr>) rest)"

text \<open>
  What the process writes: a diagnostic or the usage line on standard output, the
  \<^verbatim>\<open>perror\<close> line of a file that cannot be opened on standard error. The file system
  gives the bytes of the files that can be opened.
\<close>

datatype event = Diagnostic diag | Usage string | Perror string

type_synonym files = "string \<Rightarrow> string option"

definition lint :: "files \<Rightarrow> string \<Rightarrow> error + (event list \<times> int)" where
  "lint fs name =
     (case fs name of
        None \<Rightarrow> Inr ([Perror name], 1)
      | Some bytes \<Rightarrow>
          (case lint_lines (init_state name) (getlines bytes) of
             Inl e \<Rightarrow> Inl e
           | Inr st \<Rightarrow> Inr (map Diagnostic (printed st), status st)))"

text \<open>The \<^verbatim>\<open>for\<close> loop of \<^verbatim>\<open>main\<close> over the arguments that remain.\<close>

fun lint_args :: "files \<Rightarrow> string list \<Rightarrow> int \<Rightarrow> error + (event list \<times> int)" where
  "lint_args fs [] st = Inr ([], st)"
| "lint_args fs (name # names) st =
     (case lint fs name of
        Inl e \<Rightarrow> Inl e
      | Inr (out1, r) \<Rightarrow>
          (case lint_args fs names (st OR r) of
             Inl e \<Rightarrow> Inl e
           | Inr (out2, st') \<Rightarrow> Inr (out1 @ out2, st')))"

definition main :: "files \<Rightarrow> string list \<Rightarrow> error + (event list \<times> int)" where
  "main fs argv =
     (if length argv = 1
      then Inr ([Usage (''usage: '' @ hd argv @ '' FILE ...'' @ [NL])], 0)
      else lint_args fs (tl argv) 0)"

subsection \<open>Observations\<close>

text \<open>The scanner state that a step leaves, whether the scan goes on or not.\<close>

fun scan_of :: "step \<Rightarrow> Scan" where
  "scan_of (Next sc) = sc"
| "scan_of (Stop sc) = sc"

text \<open>
  The one place that increments \<^verbatim>\<open>num_wrappers\<close>: a space or line end in
  \<^verbatim>\<open>OPERATOR\<close> mode, when the rules of the operator just completed have the wrapper
  bit.
\<close>

definition wrapper_operator_ends :: "string \<Rightarrow> nat \<Rightarrow> char \<Rightarrow> Scan \<Rightarrow> bool" where
  "wrapper_operator_ends line i c sc =
     (mode sc = OPERATOR \<and> (c = SP \<or> c = NL) \<and>
      lookup_indent_rules line (stack sc ! nat (depth sc)) (i - stack sc ! nat (depth sc))
        AND IR_WRAPPER \<noteq> 0)"

text \<open>The status is 1 exactly when something has been printed.\<close>

definition status_agrees :: "'a State_scheme \<Rightarrow> bool" where
  "status_agrees s = (status s = (if printed s = [] then 0 else 1))"

text \<open>A file passes: it can be opened, its scan returns, and nothing is printed for it.\<close>

definition file_passes :: "files \<Rightarrow> string \<Rightarrow> bool" where
  "file_passes fs name =
     (case fs name of
        None \<Rightarrow> False
      | Some bytes \<Rightarrow>
          (case lint_lines (init_state name) (getlines bytes) of
             Inl e \<Rightarrow> False
           | Inr st \<Rightarrow> printed st = []))"

section \<open>Properties\<close>

subsection \<open>Operator lookup\<close>

text \<open>
  C1. The lookup compares only the first \<open>len\<close> bytes of each table name with the
  operator, so an operator that is a proper prefix of a name gets that name's rules:
  the operator \<open>def\<close>, which is no entry of the table, is given the rules of
  \<open>define\<close> and not the empty default set.
\<close>

theorem lookup_indent_rules_prefix_of_define:
  "lookup_indent_rules (''(def x'' @ [NL]) 1 3 = IR_SPECIAL \<and>
   IR_SPECIAL \<noteq> IR_DEFAULT \<and>
   ''def'' \<notin> set (map fst INDENT_RULES)"
  by code_simp

subsection \<open>Line length\<close>

text \<open>
  C3. A line of 81 columns and its terminator is reported at column 80 with the length
  82: the message counts the terminator, which the test \<open>line_len - 1 > MAX_COLUMNS\<close>
  leaves out.
\<close>

theorem line_too_long_counts_terminator:
  "printed (projr (lint_line (init_state ''f'') (replicate 81 (CHR ''a'') @ [NL]))) =
     [\<lparr>d_file = ''f'', d_line = 1, d_col = 80, d_msg = ''line too long: 82 > 80''\<rparr>]"
  by code_simp

subsection \<open>Strings across lines\<close>

text \<open>
  C5. A string opened on the first line is still open when the second line begins with a
  semicolon; the second line is taken for a comment line all the same: it is reported
  for the missing space after the semicolon, and its closing quote is never read, so
  the string stays open.
\<close>

theorem semicolon_line_inside_string_is_comment:
  "printed (projr (lint_lines (init_state ''f'')
      [''(display '' @ [DQUOTE] @ ''a'' @ [NL], '';b'' @ [DQUOTE] @ '')'' @ [NL]])) =
     [\<lparr>d_file = ''f'', d_line = 2, d_col = 2,
       d_msg = ''missing space after '' @ [SQUOTE, CHR '';'', SQUOTE]\<rparr>] \<and>
   in_string (projr (lint_lines (init_state ''f'')
      [''(display '' @ [DQUOTE] @ ''a'' @ [NL]])) \<and>
   in_string (projr (lint_lines (init_state ''f'')
      [''(display '' @ [DQUOTE] @ ''a'' @ [NL], '';b'' @ [DQUOTE] @ '')'' @ [NL]]))"
  by code_simp

subsection \<open>Assertions\<close>

text \<open>
  C7. A file whose first line is a lone closing delimiter leaves the depth at \<open>-1\<close>, and
  the scan of its second line stops at \<^verbatim>\<open>assert(state->depth >= 0)\<close>.
\<close>

theorem unmatched_close_fails_assertion:
  "lint_lines (init_state ''f'') (getlines ('')'' @ [NL] @ ''x'' @ [NL])) =
     Inl Assert_depth_nonneg"
  by code_simp

subsection \<open>Blank lines\<close>

lemma lint_line_blank:
  "0 \<le> depth st \<Longrightarrow> depth st < int MAX_DEPTH \<Longrightarrow> lint_line st [NL] = Inr (blank_line st)"
  by (simp add: lint_line_def)

text \<open>From the third blank line of a run on, nothing is printed.\<close>

lemma blank_run_quiet:
  "0 \<le> depth st \<Longrightarrow> depth st < int MAX_DEPTH \<Longrightarrow> prev_blanks st \<ge> 2 \<Longrightarrow>
   lint_lines st (replicate n [NL]) =
     Inr (st\<lparr>prev_blanks := prev_blanks st + int n, lineno := lineno st + int n\<rparr>)"
proof (induction n arbitrary: st)
  case 0
  then show ?case by simp
next
  case (Suc n)
  let ?st = "(blank_line st)\<lparr>lineno := lineno (blank_line st) + 1\<rparr>"
  have b: "blank_line st = st\<lparr>prev_blanks := prev_blanks st + 1\<rparr>"
    using Suc.prems by (simp add: blank_line_def)
  have "lint_lines st (replicate (Suc n) [NL]) = lint_lines ?st (replicate n [NL])"
    using Suc.prems by (simp add: lint_line_blank)
  also have "\<dots> = Inr (?st\<lparr>prev_blanks := prev_blanks ?st + int n, lineno := lineno ?st + int n\<rparr>)"
    using Suc.prems by (intro Suc.IH) (simp_all add: b)
  finally show ?case by (simp add: b add.commute add.left_commute)
qed

text \<open>
  C2, as the code has it. A run of \<open>n \<ge> 2\<close> blank lines that starts outside a string
  (after a line that is not blank, or at the start of the file, so that the counter is
  0) prints exactly one diagnostic, at the second blank line of the run, however long the
  run is: the test is \<open>prev_blanks == 1\<close>, and the counter goes on counting. The run is
  taken shorter than \<open>2^31\<close> lines, the range of the counter.
\<close>

theorem blank_run_one_diagnostic:
  assumes "2 \<le> n" and "int n < 2 ^ 31"
    and "prev_blanks st = 0" and "\<not> in_string st"
    and "0 \<le> depth st" and "depth st < int MAX_DEPTH"
  shows "lint_lines st (replicate n [NL]) =
     Inr (st\<lparr>printed := printed st @
                 [\<lparr>d_file = filename st, d_line = lineno st + 1, d_col = 1,
                   d_msg = ''multiple blank lines''\<rparr>],
              status := 1, prev_blanks := int n, lineno := lineno st + int n\<rparr>)"
proof -
  define m where "m = n - 2"
  have n: "n = Suc (Suc m)"
    using assms(1) by (simp add: m_def)
  let ?s1 = "(blank_line st)\<lparr>lineno := lineno (blank_line st) + 1\<rparr>"
  let ?s2 = "(blank_line ?s1)\<lparr>lineno := lineno (blank_line ?s1) + 1\<rparr>"
  have "lint_lines st (replicate n [NL]) = lint_lines ?s2 (replicate m [NL])"
    using assms by (simp add: n lint_line_blank fail_def blank_line_def)
  also have "\<dots> = Inr (?s2\<lparr>prev_blanks := prev_blanks ?s2 + int m, lineno := lineno ?s2 + int m\<rparr>)"
    using assms by (intro blank_run_quiet) (simp_all add: blank_line_def fail_def)
  finally show ?thesis
    using assms by (simp add: n blank_line_def fail_def)
qed

theorem blank_run_one_diagnostic_witness:
  "lint_lines (init_state ''f'') (replicate 3 [NL]) =
     Inr ((init_state ''f'')\<lparr>printed :=
              [\<lparr>d_file = ''f'', d_line = 2, d_col = 1, d_msg = ''multiple blank lines''\<rparr>],
            status := 1, prev_blanks := 3, lineno := 4\<rparr>)"
  using blank_run_one_diagnostic [of 3 "init_state ''f''"]
  by (simp add: init_state_def MAX_DEPTH_def)

text \<open>
  Three blank lines at the start of a file: one diagnostic, at line 2, where the claim
  of one diagnostic for each blank line after the first asks for two.
\<close>

theorem blank_run_three_counterexample:
  "map d_line (printed (projr (lint_lines (init_state ''f'') (replicate 3 [NL])))) = [2] \<and>
   length (printed (projr (lint_lines (init_state ''f'') (replicate 3 [NL])))) \<noteq> 3 - 1"
  by code_simp

subsection \<open>The id comparator\<close>

lemma token_of_line [simp]:
  "take (length cur) (drop (length pre) (pre @ cur @ post)) = cur"
  by simp

lemma cstr_no_nul [simp]: "NUL \<notin> set p \<Longrightarrow> cstr (p @ s) = p @ cstr s"
  by (induction p) (auto simp: cstr_def)

lemma cstr_Nil [simp]: "cstr [] = []"
  by (simp add: cstr_def)

lemma cstr_Cons [simp]: "c \<noteq> NUL \<Longrightarrow> cstr (c # s) = c # cstr s"
  by (simp add: cstr_def)

lemma id_order_loop_same_prefix:
  "id_order_loop (p @ x) (p @ y) first 0 = id_order_loop x y (first \<and> p = []) 0"
  by (induction p arbitrary: first) simp_all

lemma id_order_loop_ends:
  "id_order_loop [] q first 0" "\<not> id_order_loop (c # p) [] first 0"
  by (cases q; simp)+

text \<open>
  C6. The current id is the token that the line holds between \<open>pre\<close> and \<open>post\<close>.
  When the sigils differ, an id with sigil \<open>:\<close> is in order before an id with sigil
  \<open>?\<close>, and not the other way round. When the previous id \<open>p\<close> ends where the current
  one goes on with a dot and further segments, the pair is in order; when the previous id
  is the longer one, it is not.
\<close>

theorem correct_id_order_sigil_and_length:
  assumes "NUL \<notin> set p"
  shows "correct_id_order (CHR '':'' # a) (pre @ (CHR ''?'' # b) @ post)
           (length pre) (length (CHR ''?'' # b)) \<and>
         \<not> correct_id_order (CHR ''?'' # b) (pre @ (CHR '':'' # a) @ post)
           (length pre) (length (CHR '':'' # a)) \<and>
         correct_id_order p (pre @ (p @ CHR ''.'' # r) @ post)
           (length pre) (length (p @ CHR ''.'' # r)) \<and>
         \<not> correct_id_order (p @ CHR ''.'' # r) (pre @ p @ post) (length pre) (length p)"
proof -
  have 1: "correct_id_order (CHR '':'' # a) (pre @ (CHR ''?'' # b) @ post)
           (length pre) (length (CHR ''?'' # b))"
    unfolding correct_id_order_def token_of_line
    by (simp add: schar_def uchar_def)
  have 2: "\<not> correct_id_order (CHR ''?'' # b) (pre @ (CHR '':'' # a) @ post)
           (length pre) (length (CHR '':'' # a))"
    unfolding correct_id_order_def token_of_line
    by (simp add: schar_def uchar_def)
  have "id_order_loop (p @ []) (p @ CHR ''.'' # r) True 0"
    unfolding id_order_loop_same_prefix by (rule id_order_loop_ends)
  then have 3: "correct_id_order p (pre @ (p @ CHR ''.'' # r) @ post)
           (length pre) (length (p @ CHR ''.'' # r))"
    unfolding correct_id_order_def token_of_line
    using assms cstr_no_nul [of p "[]"] by simp
  have "\<not> id_order_loop (p @ CHR ''.'' # cstr r) (p @ []) True 0"
    unfolding id_order_loop_same_prefix by (rule id_order_loop_ends)
  then have 4: "\<not> correct_id_order (p @ CHR ''.'' # r) (pre @ p @ post) (length pre) (length p)"
    unfolding correct_id_order_def token_of_line
    using assms by simp
  from 1 2 3 4 show ?thesis by blast
qed

theorem correct_id_order_sigil_and_length_witness:
  "correct_id_order '':1'' (''(?2 x)'' @ [NL]) 1 2 \<and>
   \<not> correct_id_order ''?2'' (''(:1 x)'' @ [NL]) 1 2 \<and>
   correct_id_order '':1.2'' (''(:1.2.3 x)'' @ [NL]) 1 6 \<and>
   \<not> correct_id_order '':1.2.3'' (''(:1.2 x)'' @ [NL]) 1 4"
  using correct_id_order_sigil_and_length [of "'':1.2''" "''1''" "''(''" "''2''" "'' x)'' @ [NL]" "''3''"]
  by (simp add: eval_nat_numeral)

subsection \<open>Identical names and identical ids\<close>


lemma cstr_idem [simp]: "cstr (cstr s) = cstr s"
  by (simp add: cstr_def)




text \<open>
  On a whole file: the name \<open>foo\<close> twice in one id block is reported, the id
  \<open>:1.1\<close> twice in one use block is not.
\<close>

lemma import_block_example:
  "printed (projr (lint_lines (init_state ''f'')
      [''(Section :1.2 '' @ [DQUOTE] @ ''T'' @ [DQUOTE, NL],
       ''  (use (:1.1 foo foo) (:1.1 bar)))'' @ [NL]])) =
     [\<lparr>d_file = ''f'', d_line = 2, d_col = 18,
       d_msg = ''incorrect import name ordering: foo > foo''\<rparr>]"
  by code_simp

subsection \<open>Comment lines\<close>

lemma semicolon_run_replicate:
  "rest \<noteq> [] \<Longrightarrow> hd rest \<noteq> CHR '';'' \<Longrightarrow>
   semicolon_run (replicate m (CHR '';'') @ rest) i = i + m"
  by (induction m arbitrary: i) (cases rest; simp)+

lemma peek_hd: "rest \<noteq> [] \<Longrightarrow> peek rest = hd rest"
  by (cases rest) simp_all

lemma lint_line_comment:
  assumes "line = replicate (Suc k) (CHR '';'') @ rest" "rest \<noteq> []" "last rest = NL"
    and "0 \<le> depth st" "depth st < int MAX_DEPTH"
  shows "lint_line st line = Inr (comment_line (length_checks st line) line)"
proof -
  have ne: "line \<noteq> []" using assms by simp
  have "last line = NL" using assms by simp
  with ne have nl: "line ! (length line - 1) = NL"
    by (simp add: last_conv_nth)
  have len: "length line > 1" using assms by (cases rest) simp_all
  have "line ! 0 = CHR '';''" using assms by simp
  with nl len ne assms(4,5) show ?thesis
    by (simp add: lint_line_def Let_def)
qed

lemma printed_length_checks:
  "printed (length_checks st line) = printed st @
     (if length line - 1 > MAX_COLUMNS
      then [\<lparr>d_file = filename st, d_line = lineno st, d_col = MAX_COLUMNS,
             d_msg = line_too_long_msg (length line)\<rparr>] else []) @
     (if line ! (length line - 2) = SP
      then [\<lparr>d_file = filename st, d_line = lineno st, d_col = length line - 2 + 1,
             d_msg = ''trailing whitespace''\<rparr>] else [])"
  by (simp add: length_checks_def fail_def Let_def MAX_COLUMNS_def)

lemma length_checks_fields [simp]:
  "lineno (length_checks st line) = lineno st"
  "filename (length_checks st line) = filename st"
  by (simp_all add: length_checks_def fail_def Let_def)

lemma printed_comment_line:
  assumes "line = replicate (Suc k) (CHR '';'') @ rest" "rest \<noteq> []" "hd rest \<noteq> CHR '';''"
  shows "printed (comment_line s line) = printed s @
     (if Suc k > 3
      then [\<lparr>d_file = filename s, d_line = lineno s, d_col = 1,
             d_msg = ''too many semicolons''\<rparr>]
      else if Suc k = 3 \<and> lineno s \<noteq> 1
      then [\<lparr>d_file = filename s, d_line = lineno s, d_col = 1,
             d_msg = [SQUOTE] @ '';;;'' @ [SQUOTE] @ '' only allowed on first line copyright''\<rparr>]
      else []) @
     (if hd rest \<noteq> NL \<and> hd rest \<noteq> SP
      then [\<lparr>d_file = filename s, d_line = lineno s, d_col = Suc k + 1,
             d_msg = ''missing space after '' @ [SQUOTE, CHR '';'', SQUOTE]\<rparr>]
      else [])"
proof -
  have run: "semicolon_run (tl line) 1 = Suc k"
    using assms by (simp add: semicolon_run_replicate)
  have pk: "peek (drop (Suc k) line) = hd rest"
    using assms by (simp add: peek_hd)
  show ?thesis
    unfolding comment_line_def run pk Let_def
    by (simp add: fail_def)
qed

lemma line_too_long_msg_head: "\<exists>t. line_too_long_msg n = CHR ''l'' # t"
  by (simp add: line_too_long_msg_def)

text \<open>
  C8. A line that begins with exactly \<open>k \<ge> 1\<close> semicolons, on a state that passes
  the assertions of \<^verbatim>\<open>lint_line\<close>. With one or two semicolons and then a space or the
  line end, neither \<open>too many semicolons\<close> nor the missing-space diagnostic is
  printed; with four or more, \<open>too many semicolons\<close> is printed; with exactly three,
  the first-line diagnostic is printed on every line but line 1, and on line 1 neither
  of the two diagnostics on the number of semicolons is.
\<close>

theorem comment_marker_runs:
  assumes "line = replicate k (CHR '';'') @ rest" and "1 \<le> k"
    and "rest \<noteq> []" and "hd rest \<noteq> CHR '';''" and "last rest = NL"
    and "0 \<le> depth st" and "depth st < int MAX_DEPTH"
  shows "\<exists>st'. lint_line st line = Inr st' \<and>
     ((k = 1 \<or> k = 2) \<and> (hd rest = SP \<or> hd rest = NL) \<longrightarrow>
        ''too many semicolons'' \<notin> set (map d_msg (emitted st st')) \<and>
        ''missing space after '' @ [SQUOTE, CHR '';'', SQUOTE]
          \<notin> set (map d_msg (emitted st st'))) \<and>
     (4 \<le> k \<longrightarrow> ''too many semicolons'' \<in> set (map d_msg (emitted st st'))) \<and>
     (k = 3 \<and> lineno st \<noteq> 1 \<longrightarrow>
        [SQUOTE] @ '';;;'' @ [SQUOTE] @ '' only allowed on first line copyright''
          \<in> set (map d_msg (emitted st st'))) \<and>
     (k = 3 \<and> lineno st = 1 \<longrightarrow>
        ''too many semicolons'' \<notin> set (map d_msg (emitted st st')) \<and>
        [SQUOTE] @ '';;;'' @ [SQUOTE] @ '' only allowed on first line copyright''
          \<notin> set (map d_msg (emitted st st')))"
proof -
  obtain j where k: "k = Suc j"
    using assms(2) by (cases k) simp_all
  obtain t where t: "line_too_long_msg (length line) = CHR ''l'' # t"
    using line_too_long_msg_head by blast
  have l: "lint_line st line = Inr (comment_line (length_checks st line) line)"
    using assms unfolding k by (intro lint_line_comment) simp_all
  have p: "printed (comment_line (length_checks st line) line) =
     printed (length_checks st line) @
     (if Suc j > 3
      then [\<lparr>d_file = filename st, d_line = lineno st, d_col = 1,
             d_msg = ''too many semicolons''\<rparr>]
      else if Suc j = 3 \<and> lineno st \<noteq> 1
      then [\<lparr>d_file = filename st, d_line = lineno st, d_col = 1,
             d_msg = [SQUOTE] @ '';;;'' @ [SQUOTE] @ '' only allowed on first line copyright''\<rparr>]
      else []) @
     (if hd rest \<noteq> NL \<and> hd rest \<noteq> SP
      then [\<lparr>d_file = filename st, d_line = lineno st, d_col = Suc j + 1,
             d_msg = ''missing space after '' @ [SQUOTE, CHR '';'', SQUOTE]\<rparr>]
      else [])"
    using assms unfolding k
    by (subst printed_comment_line [where k = j and rest = rest]) simp_all
  show ?thesis
    unfolding l
    by (rule exI [of _ "comment_line (length_checks st line) line"])
       (auto simp: emitted_def p printed_length_checks k t)
qed


theorem comment_marker_runs_witness:
  "(\<exists>st'. lint_line (init_state ''f'') (''; a'' @ [NL]) = Inr st' \<and>
      ''too many semicolons'' \<notin> set (map d_msg (emitted (init_state ''f'') st')) \<and>
      ''missing space after '' @ [SQUOTE, CHR '';'', SQUOTE]
        \<notin> set (map d_msg (emitted (init_state ''f'') st'))) \<and>
   (\<exists>st'. lint_line (init_state ''f'') ('';;;; a'' @ [NL]) = Inr st' \<and>
      ''too many semicolons'' \<in> set (map d_msg (emitted (init_state ''f'') st'))) \<and>
   (\<exists>st'. lint_line ((init_state ''f'')\<lparr>lineno := 2\<rparr>) ('';;; a'' @ [NL]) = Inr st' \<and>
      [SQUOTE] @ '';;;'' @ [SQUOTE] @ '' only allowed on first line copyright''
        \<in> set (map d_msg (emitted ((init_state ''f'')\<lparr>lineno := 2\<rparr>) st'))) \<and>
   (\<exists>st'. lint_line (init_state ''f'') ('';;; a'' @ [NL]) = Inr st' \<and>
      ''too many semicolons'' \<notin> set (map d_msg (emitted (init_state ''f'') st')) \<and>
      [SQUOTE] @ '';;;'' @ [SQUOTE] @ '' only allowed on first line copyright''
        \<notin> set (map d_msg (emitted (init_state ''f'') st')))"
  using comment_marker_runs [of "''; a'' @ [NL]" 1 "'' a'' @ [NL]" "init_state ''f''"]
    comment_marker_runs [of "'';;;; a'' @ [NL]" 4 "'' a'' @ [NL]" "init_state ''f''"]
    comment_marker_runs [of "'';;; a'' @ [NL]" 3 "'' a'' @ [NL]" "(init_state ''f'')\<lparr>lineno := 2\<rparr>"]
    comment_marker_runs [of "'';;; a'' @ [NL]" 3 "'' a'' @ [NL]" "init_state ''f''"]
  by (simp add: init_state_def MAX_DEPTH_def eval_nat_numeral)

subsection \<open>What a step of the scanner leaves alone\<close>

text \<open>
  For each case of the scanner: what it does to \<^verbatim>\<open>num_wrappers\<close>, and that it keeps
  the status in step with what has been printed.
\<close>

lemma fail_fields [simp]:
  "num_wrappers (fail s i m) = num_wrappers s"
  "status_agrees (fail s i m)"
  "depth (fail s i m) = depth s"
  "import_mode (fail s i m) = import_mode s"
  by (simp_all add: fail_def status_agrees_def)

lemma fail_scan_fields [simp]:
  "mode (fail sc i m) = mode sc"
  "prev (fail sc i m) = prev sc"
  by (simp_all add: fail_def)

lemma advance_fields [simp]:
  "num_wrappers (advance i c sc) = num_wrappers sc"
  "status_agrees (advance i c sc) = status_agrees sc"
  by (simp_all add: advance_def Let_def status_agrees_def)

lemma check_name_fields [simp]:
  "num_wrappers (check_name line i sc) = num_wrappers sc"
  "status_agrees sc \<Longrightarrow> status_agrees (check_name line i sc)"
  by (simp_all add: check_name_def Let_def)

lemma comment_space_fields [simp]:
  "num_wrappers (comment_space i c sc) = num_wrappers sc"
  "status_agrees sc \<Longrightarrow> status_agrees (comment_space i c sc)"
  by (simp_all add: comment_space_def)

lemma status_agrees_updates [simp]:
  "status_agrees (sc\<lparr>mode := m\<rparr>) = status_agrees sc"
  "status_agrees (s\<lparr>depth := d\<rparr>) = status_agrees s"
  "status_agrees (s\<lparr>stack := st\<rparr>) = status_agrees s"
  "status_agrees (s\<lparr>quoted_align := q\<rparr>) = status_agrees s"
  "status_agrees (s\<lparr>in_string := b\<rparr>) = status_agrees s"
  "status_agrees (s\<lparr>num_wrappers := n\<rparr>) = status_agrees s"
  "status_agrees (s\<lparr>import_mode := im\<rparr>) = status_agrees s"
  "status_agrees (s\<lparr>last_import_id := x\<rparr>) = status_agrees s"
  "status_agrees (s\<lparr>last_import_name := x\<rparr>) = status_agrees s"
  "status_agrees (s\<lparr>prev_blanks := pb\<rparr>) = status_agrees s"
  "status_agrees (s\<lparr>lineno := ln\<rparr>) = status_agrees s"
  "status_agrees (sc\<lparr>two_spaces := b\<rparr>) = status_agrees sc"
  by (simp_all add: status_agrees_def)

lemma close_checks_fields [simp]:
  "num_wrappers (close_checks i sc) = num_wrappers sc"
  "status_agrees sc \<Longrightarrow> status_agrees (close_checks i sc)"
  by (simp_all add: close_checks_def Let_def)

lemma close_import_fields [simp]:
  "num_wrappers (close_import line i sc) = num_wrappers sc"
  "status_agrees sc \<Longrightarrow> status_agrees (close_import line i sc)"
  by (simp_all add: close_import_def Let_def)

lemma close_paren_fields [simp]:
  "num_wrappers (close_paren line i sc) = num_wrappers sc"
  "status_agrees sc \<Longrightarrow> status_agrees (close_paren line i sc)"
  by (simp_all add: close_paren_def)

lemma indent_check_fields:
  assumes "indent_check na i sc = Inr sc'"
  shows "num_wrappers sc' = num_wrappers sc"
    and "status_agrees sc \<Longrightarrow> status_agrees sc'"
    and "mode sc' = mode sc"
proof -
  have "case indent_check na i sc of Inl e \<Rightarrow> True
        | Inr x \<Rightarrow> num_wrappers x = num_wrappers sc \<and> mode x = mode sc \<and>
                   (status_agrees sc \<longrightarrow> status_agrees x)"
    by (simp add: indent_check_def)
  with assms show "num_wrappers sc' = num_wrappers sc"
    and "status_agrees sc \<Longrightarrow> status_agrees sc'" and "mode sc' = mode sc"
    by simp_all
qed

lemma open_paren_fields:
  assumes "open_paren i sc = Inr sc'"
  shows "num_wrappers sc' = num_wrappers sc"
    and "status_agrees sc \<Longrightarrow> status_agrees sc'"
proof -
  have "case open_paren i sc of Inl e \<Rightarrow> True
        | Inr x \<Rightarrow> num_wrappers x = num_wrappers sc \<and>
                   (status_agrees sc \<longrightarrow> status_agrees x)"
    by (simp add: open_paren_def Let_def)
  with assms show "num_wrappers sc' = num_wrappers sc"
    and "status_agrees sc \<Longrightarrow> status_agrees sc'"
    by simp_all
qed

lemma store_name_fields:
  assumes "store_name line i sc = Inr sc'"
  shows "num_wrappers sc' = num_wrappers sc"
    and "status_agrees sc \<Longrightarrow> status_agrees sc'"
proof -
  have "case store_name line i sc of Inl e \<Rightarrow> True
        | Inr x \<Rightarrow> num_wrappers x = num_wrappers sc \<and>
                   (status_agrees sc \<longrightarrow> status_agrees x)"
    by (simp add: store_name_def Let_def)
  with assms show "num_wrappers sc' = num_wrappers sc"
    and "status_agrees sc \<Longrightarrow> status_agrees sc'"
    by simp_all
qed

lemma apply_rules_fields [simp]:
  "num_wrappers (apply_rules rules d i c sc) =
     num_wrappers sc + (if rules AND IR_WRAPPER \<noteq> 0 then 1 else 0)"
  "status_agrees (apply_rules rules d i c sc) = status_agrees sc"
  by (simp_all add: apply_rules_def Let_def)

lemma enter_import_fields:
  assumes "enter_import line start len sc = Inr sc'"
  shows "num_wrappers sc' = num_wrappers sc"
    and "status_agrees sc \<Longrightarrow> status_agrees sc'"
proof -
  have "case enter_import line start len sc of Inl e \<Rightarrow> True
        | Inr x \<Rightarrow> num_wrappers x = num_wrappers sc \<and>
                   (status_agrees sc \<longrightarrow> status_agrees x)"
    by (simp add: enter_import_def Let_def split: ImportBlock.split)
  with assms show "num_wrappers sc' = num_wrappers sc"
    and "status_agrees sc \<Longrightarrow> status_agrees sc'"
    by simp_all
qed

lemma classify_operator_fields:
  assumes "classify_operator line i c sc = Inr sc'"
  shows "num_wrappers sc' = num_wrappers sc +
     (if lookup_indent_rules line (stack sc ! nat (depth sc)) (i - stack sc ! nat (depth sc))
           AND IR_WRAPPER \<noteq> 0 then 1 else 0)"
    and "status_agrees sc \<Longrightarrow> status_agrees sc'"
proof -
  let ?start = "stack sc ! nat (depth sc)"
  let ?rules = "lookup_indent_rules line ?start (i - ?start)"
  from assms have e: "enter_import line ?start (i - ?start)
      (apply_rules ?rules (nat (depth sc)) i c (sc\<lparr>mode := NORMAL\<rparr>)) = Inr sc'"
    by (simp add: classify_operator_def Let_def split: if_splits)
  from enter_import_fields(1) [OF e]
  show "num_wrappers sc' = num_wrappers sc + (if ?rules AND IR_WRAPPER \<noteq> 0 then 1 else 0)"
    by simp
  from enter_import_fields(2) [OF e]
  show "status_agrees sc \<Longrightarrow> status_agrees sc'"
    by simp
qed

lemma space_or_newline_fields:
  assumes "space_or_newline line i c sc = Inr sc'"
  shows "num_wrappers sc' = num_wrappers sc +
     (if mode sc = OPERATOR \<and>
         lookup_indent_rules line (stack sc ! nat (depth sc)) (i - stack sc ! nat (depth sc))
           AND IR_WRAPPER \<noteq> 0 then 1 else 0)"
    and "status_agrees sc \<Longrightarrow> status_agrees sc'"
proof -
  let ?sc1 = "if c = SP \<and> prev sc = SP then sc\<lparr>two_spaces := True\<rparr> else sc"
  have f: "mode ?sc1 = mode sc" "stack ?sc1 = stack sc" "depth ?sc1 = depth sc"
    "num_wrappers ?sc1 = num_wrappers sc" "status_agrees ?sc1 = status_agrees sc"
    by simp_all
  consider (op) "mode sc = OPERATOR" "classify_operator line i c ?sc1 = Inr sc'"
    | (nm) "mode sc \<noteq> OPERATOR" "import_mode ?sc1 = IB_ID" "store_name line i ?sc1 = Inr sc'"
    | (no) "mode sc \<noteq> OPERATOR" "sc' = ?sc1"
    using assms unfolding space_or_newline_def Let_def f by (auto split: if_splits)
  then have "num_wrappers sc' = num_wrappers sc +
     (if mode sc = OPERATOR \<and>
         lookup_indent_rules line (stack sc ! nat (depth sc)) (i - stack sc ! nat (depth sc))
           AND IR_WRAPPER \<noteq> 0 then 1 else 0) \<and> (status_agrees sc \<longrightarrow> status_agrees sc')"
  proof cases
    case op
    from classify_operator_fields [OF op(2)] op(1) show ?thesis
      unfolding f by simp
  next
    case nm
    from store_name_fields [OF nm(3)] nm(1) show ?thesis
      unfolding f by simp
  next
    case no
    then show ?thesis unfolding f by (simp only: f if_False simp_thms add_0_right)
  qed
  then show "num_wrappers sc' = num_wrappers sc +
     (if mode sc = OPERATOR \<and>
         lookup_indent_rules line (stack sc ! nat (depth sc)) (i - stack sc ! nat (depth sc))
           AND IR_WRAPPER \<noteq> 0 then 1 else 0)"
    and "status_agrees sc \<Longrightarrow> status_agrees sc'"
    by simp_all
qed

lemma two_spaces_check_fields [simp]:
  "num_wrappers (two_spaces_check i c sc) = num_wrappers sc"
  "mode (two_spaces_check i c sc) = mode sc"
  "stack (two_spaces_check i c sc) = stack sc"
  "depth (two_spaces_check i c sc) = depth sc"
  "status_agrees sc \<Longrightarrow> status_agrees (two_spaces_check i c sc)"
  by (simp_all add: two_spaces_check_def fail_def status_agrees_def)

lemma comment_start_fields [simp]:
  "num_wrappers (comment_start i sc) = num_wrappers sc"
  "status_agrees sc \<Longrightarrow> status_agrees (comment_start i sc)"
  by (simp_all add: comment_start_def Let_def)

lemma code_char_fields:
  assumes "code_char line i c sc = Inr sc'"
  shows "num_wrappers sc' = num_wrappers sc +
           (if wrapper_operator_ends line i c sc then 1 else 0)"
    and "status_agrees sc \<Longrightarrow> status_agrees sc'"
proof -
  let ?sc1 = "two_spaces_check i c sc"
  have "num_wrappers sc' = num_wrappers sc +
           (if wrapper_operator_ends line i c sc then 1 else 0) \<and>
         (status_agrees sc \<longrightarrow> status_agrees sc')"
  proof (cases "c = SP \<or> c = NL")
    case True
    with assms have s: "space_or_newline line i c ?sc1 = Inr sc'"
      by (auto simp: code_char_def Let_def)
    from space_or_newline_fields [OF s] True show ?thesis
      by (simp add: wrapper_operator_ends_def)
  next
    case False
    then have w: "\<not> wrapper_operator_ends line i c sc"
      by (simp add: wrapper_operator_ends_def)
    show ?thesis
    proof (cases "c = CHR ''('' \<or> c = CHR ''[''")
      case True
      with assms have s: "open_paren i ?sc1 = Inr sc'"
        by (auto simp: code_char_def Let_def)
      from open_paren_fields [OF s] w show ?thesis by simp
    next
      case nopen: False
      have "sc' = ?sc1\<lparr>mode := STRING, in_string := True\<rparr> \<or> sc' = comment_start i ?sc1 \<or>
            sc' = close_paren line i ?sc1 \<or> sc' = ?sc1"
        using assms False nopen by (auto simp: code_char_def Let_def split: if_splits)
      then show ?thesis using w by auto
    qed
  qed
  then show "num_wrappers sc' = num_wrappers sc +
           (if wrapper_operator_ends line i c sc then 1 else 0)"
    and "status_agrees sc \<Longrightarrow> status_agrees sc'"
    by simp_all
qed

lemma tab_check_fields [simp]:
  "num_wrappers (tab_check i c sc) = num_wrappers sc"
  "mode (tab_check i c sc) = mode sc"
  "stack (tab_check i c sc) = stack sc"
  "depth (tab_check i c sc) = depth sc"
  "status_agrees sc \<Longrightarrow> status_agrees (tab_check i c sc)"
  by (simp_all add: tab_check_def fail_def status_agrees_def)

lemma wrapper_operator_ends_tab_check [simp]:
  "wrapper_operator_ends line i c (tab_check i c sc) = wrapper_operator_ends line i c sc"
  by (simp add: wrapper_operator_ends_def)

lemma go_on_Inr:
  assumes "go_on i c r0 = Inr r"
  obtains sc2 where "r0 = Inr sc2" and "r = Next (advance i c sc2)"
  using assms by (cases r0) (auto simp: go_on_def)

lemma scan_char_fields:
  assumes "scan_char na line i c sc = Inr r"
  shows "num_wrappers (scan_of r) = num_wrappers sc +
           (if wrapper_operator_ends line i c sc then 1 else 0)"
    and "status_agrees sc \<Longrightarrow> status_agrees (scan_of r)"
proof -
  let ?sc = "tab_check i c sc"
  have "num_wrappers (scan_of r) = num_wrappers sc +
           (if wrapper_operator_ends line i c sc then 1 else 0) \<and>
        (status_agrees sc \<longrightarrow> status_agrees (scan_of r))"
  proof (cases "mode sc")
    case INDENT
    then have w: "\<not> wrapper_operator_ends line i c sc"
      by (simp add: wrapper_operator_ends_def)
    show ?thesis
    proof (cases "c = SP")
      case True
      with assms INDENT have "r = Next (advance i c ?sc)"
        by (simp add: scan_char_def Let_def)
      with w show ?thesis by simp
    next
      case False
      with assms INDENT obtain sc1 where
        ic: "indent_check na i ?sc = Inr sc1" and
        g: "go_on i c (code_char line i c (sc1\<lparr>mode := NORMAL\<rparr>)) = Inr r"
        by (cases "indent_check na i ?sc") (simp_all add: scan_char_def Let_def)
      from g obtain sc2 where
        cc: "code_char line i c (sc1\<lparr>mode := NORMAL\<rparr>) = Inr sc2" and
        r: "r = Next (advance i c sc2)"
        by (rule go_on_Inr)
      have "\<not> wrapper_operator_ends line i c (sc1\<lparr>mode := NORMAL\<rparr>)"
        by (simp add: wrapper_operator_ends_def)
      with code_char_fields [OF cc] indent_check_fields [OF ic] w r
      show ?thesis by simp
    qed
  next
    case NORMAL
    with assms have g: "go_on i c (code_char line i c ?sc) = Inr r"
      by (simp add: scan_char_def Let_def)
    then obtain sc2 where cc: "code_char line i c ?sc = Inr sc2" and
      r: "r = Next (advance i c sc2)"
      by (rule go_on_Inr)
    from code_char_fields [OF cc] r show ?thesis by simp
  next
    case OPERATOR
    with assms have g: "go_on i c (code_char line i c ?sc) = Inr r"
      by (simp add: scan_char_def Let_def)
    then obtain sc2 where cc: "code_char line i c ?sc = Inr sc2" and
      r: "r = Next (advance i c sc2)"
      by (rule go_on_Inr)
    from code_char_fields [OF cc] r show ?thesis by simp
  next
    case STRING
    then have w: "\<not> wrapper_operator_ends line i c sc"
      by (simp add: wrapper_operator_ends_def)
    from assms STRING have "r = Next (advance i c
        (if \<not> escaped ?sc \<and> c = DQUOTE then ?sc\<lparr>mode := NORMAL, in_string := False\<rparr>
         else ?sc))"
      by (simp add: scan_char_def Let_def)
    with w show ?thesis by simp
  next
    case COMMENT
    then have w: "\<not> wrapper_operator_ends line i c sc"
      by (simp add: wrapper_operator_ends_def)
    from assms COMMENT have "r = Next (advance i c (?sc\<lparr>mode := COMMENT_SPACE\<rparr>)) \<or>
        r = Stop (comment_space i c ?sc)"
      by (simp add: scan_char_def Let_def split: if_splits)
    with w show ?thesis by auto
  next
    case COMMENT_SPACE
    then have w: "\<not> wrapper_operator_ends line i c sc"
      by (simp add: wrapper_operator_ends_def)
    from assms COMMENT_SPACE have "r = Stop (comment_space i c ?sc)"
      by (simp add: scan_char_def Let_def)
    with w show ?thesis by simp
  qed
  then show "num_wrappers (scan_of r) = num_wrappers sc +
           (if wrapper_operator_ends line i c sc then 1 else 0)"
    and "status_agrees sc \<Longrightarrow> status_agrees (scan_of r)"
    by simp_all
qed

lemma truncate_fields [simp]:
  "num_wrappers (State.truncate sc) = num_wrappers sc"
  "status_agrees (State.truncate sc) = status_agrees sc"
  by (simp_all add: State.truncate_def status_agrees_def)

lemma scan_loop_fields:
  "scan_loop na line i cs sc = Inr st' \<Longrightarrow>
   num_wrappers sc \<le> num_wrappers st' \<and> (status_agrees sc \<longrightarrow> status_agrees st')"
proof (induction cs arbitrary: i sc)
  case Nil
  then show ?case by auto
next
  case (Cons c cs)
  from Cons.prems obtain r where r: "scan_char na line i c sc = Inr r"
    by (cases "scan_char na line i c sc") simp_all
  note f = scan_char_fields [OF r]
  show ?case
  proof (cases r)
    case (Next sc2)
    with Cons.prems r have "scan_loop na line (Suc i) cs sc2 = Inr st'" by simp
    from Cons.IH [OF this] f Next show ?thesis by (auto split: if_splits)
  next
    case (Stop sc2)
    with Cons.prems r have "st' = State.truncate sc2" by simp
    with f Stop show ?thesis by (auto split: if_splits)
  qed
qed

lemma blank_line_fields [simp]:
  "num_wrappers (blank_line st) = num_wrappers st"
  "status_agrees st \<Longrightarrow> status_agrees (blank_line st)"
  by (simp_all add: blank_line_def Let_def)

lemma length_checks_more_fields [simp]:
  "num_wrappers (length_checks st line) = num_wrappers st"
  "status_agrees st \<Longrightarrow> status_agrees (length_checks st line)"
  by (simp_all add: length_checks_def Let_def)

lemma comment_line_fields [simp]:
  "num_wrappers (comment_line st line) = num_wrappers st"
  "status_agrees st \<Longrightarrow> status_agrees (comment_line st line)"
  by (simp_all add: comment_line_def Let_def)

lemma start_scan_fields [simp]:
  "num_wrappers (start_scan st) = num_wrappers st"
  "status_agrees (start_scan st) = status_agrees st"
  by (simp_all add: start_scan_def State.extend_def status_agrees_def)

lemma lint_line_fields:
  assumes "lint_line st line = Inr st'"
  shows "num_wrappers st \<le> num_wrappers st'"
    and "status_agrees st \<Longrightarrow> status_agrees st'"
proof -
  let ?na = "length line \<ge> length NO_ALIGN_COMMENT \<and>
     strncmp (drop (length line - length NO_ALIGN_COMMENT) line) NO_ALIGN_COMMENT
       (length NO_ALIGN_COMMENT) = 0"
  from assms have "st' = blank_line st \<or> st' = comment_line (length_checks st line) line \<or>
      scan_loop ?na line 0 line (start_scan (length_checks st line)) = Inr st'"
    by (simp add: lint_line_def Let_def split: if_splits)
  then have "num_wrappers st \<le> num_wrappers st' \<and> (status_agrees st \<longrightarrow> status_agrees st')"
    using scan_loop_fields [of ?na line 0 line "start_scan (length_checks st line)" st']
    by auto
  then show "num_wrappers st \<le> num_wrappers st'"
    and "status_agrees st \<Longrightarrow> status_agrees st'"
    by simp_all
qed

lemma lint_lines_fields:
  "lint_lines st ls = Inr st' \<Longrightarrow>
   num_wrappers st \<le> num_wrappers st' \<and> (status_agrees st \<longrightarrow> status_agrees st')"
proof (induction ls arbitrary: st)
  case Nil
  then show ?case by simp
next
  case (Cons l ls)
  from Cons.prems obtain st1 where l: "lint_line st l = Inr st1"
    and r: "lint_lines (st1\<lparr>lineno := lineno st1 + 1\<rparr>) ls = Inr st'"
    by (cases "lint_line st l") simp_all
  from Cons.IH [OF r] lint_line_fields [OF l] show ?case by auto
qed

subsection \<open>The wrapper count\<close>

text \<open>
  C4, as the code has it. \<^verbatim>\<open>num_wrappers\<close> counts the wrapper forms encountered: a
  step of the scanner adds one exactly when it completes an operator whose rules have the
  wrapper bit, and leaves the count as it is otherwise, at a closing delimiter too; so
  the count never decreases over the lines of a file.
\<close>

theorem num_wrappers_counts_encounters:
  "(scan_char no_align line i c sc = Inr r \<longrightarrow>
      num_wrappers (scan_of r) =
        num_wrappers sc + (if wrapper_operator_ends line i c sc then 1 else 0)) \<and>
   (lint_lines st ls = Inr st' \<longrightarrow> num_wrappers st \<le> num_wrappers st')"
  using scan_char_fields(1) [of no_align line i c sc r] lint_lines_fields [of st ls st']
  by blast

theorem num_wrappers_counts_encounters_witness:
  "num_wrappers (scan_of (projr (scan_char False (''(SICP'' @ [NL]) 5 NL
      ((start_scan (init_state ''f''))\<lparr>mode := OPERATOR, depth := 1,
         stack := (replicate MAX_DEPTH 0)[1 := 1]\<rparr>)))) = 1 \<and>
   num_wrappers (init_state ''f'') \<le>
     num_wrappers (projr (lint_lines (init_state ''f'') [''(SICP'' @ [NL], '')'' @ [NL]]))"
proof -
  let ?sc = "(start_scan (init_state ''f''))\<lparr>mode := OPERATOR, depth := 1,
         stack := (replicate MAX_DEPTH 0)[1 := 1]\<rparr>"
  let ?L = "''(SICP'' @ [NL]"
  let ?ls = "[''(SICP'' @ [NL], '')'' @ [NL]]"
  have a: "scan_char False ?L 5 NL ?sc = Inr (projr (scan_char False ?L 5 NL ?sc))"
    by code_simp
  have w: "wrapper_operator_ends ?L 5 NL ?sc"
    by code_simp
  have n: "num_wrappers ?sc = 0"
    by code_simp
  have b: "lint_lines (init_state ''f'') ?ls = Inr (projr (lint_lines (init_state ''f'') ?ls))"
    by code_simp
  from num_wrappers_counts_encounters
    [of False ?L 5 NL ?sc "projr (scan_char False ?L 5 NL ?sc)"
        "init_state ''f''" ?ls "projr (lint_lines (init_state ''f'') ?ls)"]
    a w n b
  show ?thesis by simp
qed

text \<open>
  After a wrapper form has been opened and closed again the count is still 1, with no
  form open; and the contents of a second top-level wrapper form, at column 0 like
  those of the first, are reported for their indentation.
\<close>

theorem num_wrappers_after_close_counterexample:
  "num_wrappers (projr (lint_lines (init_state ''f'') [''(SICP'' @ [NL]])) = 1 \<and>
   num_wrappers (projr (lint_lines (init_state ''f'') [''(SICP'' @ [NL], '')'' @ [NL]])) = 1 \<and>
   depth (projr (lint_lines (init_state ''f'') [''(SICP'' @ [NL], '')'' @ [NL]])) = 0 \<and>
   printed (projr (lint_lines (init_state ''f'') [''(SICP'' @ [NL], ''foo'' @ [NL]])) = [] \<and>
   printed (projr (lint_lines (init_state ''f'')
      [''(SICP'' @ [NL], '')'' @ [NL], ''(SICP'' @ [NL], ''foo'' @ [NL]])) =
     [\<lparr>d_file = ''f'', d_line = 4, d_col = 1, d_msg = ''incorrect indentation''\<rparr>]"
  by code_simp

subsection \<open>The exit status\<close>

lemma init_state_agrees: "status_agrees (init_state name)"
  by (simp add: status_agrees_def init_state_def)

lemma lint_status:
  assumes "lint fs name = Inr (out, r)"
  shows "r = (if file_passes fs name then 0 else 1)"
proof (cases "fs name")
  case None
  with assms show ?thesis by (simp add: lint_def file_passes_def)
next
  case (Some bytes)
  with assms obtain st where l: "lint_lines (init_state name) (getlines bytes) = Inr st"
    and r: "r = status st"
    by (cases "lint_lines (init_state name) (getlines bytes)") (auto simp: lint_def)
  from lint_lines_fields [OF l] init_state_agrees have "status_agrees st" by simp
  with r l Some show ?thesis by (simp add: status_agrees_def file_passes_def)
qed

lemma or_status:
  "(if a then (0::int) else 1) OR (if b then 0 else 1) = (if a \<and> b then 0 else 1)"
  by simp

lemma lint_args_status:
  "lint_args fs names (if ok then 0 else 1) = Inr (out, code) \<Longrightarrow>
   code = (if ok \<and> (\<forall>name\<in>set names. file_passes fs name) then 0 else 1) \<and>
   out = concat (map (\<lambda>name. fst (projr (lint fs name))) names)"
proof (induction names arbitrary: ok out)
  case Nil
  then show ?case by auto
next
  case (Cons name names)
  from Cons.prems obtain out1 r where l: "lint fs name = Inr (out1, r)"
    by (cases "lint fs name") auto
  with Cons.prems obtain out2 where
    a: "lint_args fs names ((if ok then 0 else 1) OR r) = Inr (out2, code)"
    and o: "out = out1 @ out2"
    by (cases "lint_args fs names ((if ok then 0 else 1) OR r)") auto
  have r: "r = (if file_passes fs name then 0 else 1)"
    using l by (rule lint_status)
  from a have "lint_args fs names (if ok \<and> file_passes fs name then 0 else 1) = Inr (out2, code)"
    unfolding r or_status .
  from Cons.IH [OF this] o l show ?case by auto
qed

text \<open>
  With no file argument the program prints the usage line and returns 0. With file
  arguments, whenever the process returns instead of stopping at an assertion, its
  status is 0 if every file passes (it opens and nothing is printed for it) and 1
  otherwise, and what is written is what each file gives, in argument order.
\<close>

lemma main_exit_status_when_returning:
  "main fs [prog] = Inr ([Usage (''usage: '' @ prog @ '' FILE ...'' @ [NL])], 0) \<and>
   (names \<noteq> [] \<and> main fs (prog # names) = Inr (out, code) \<longrightarrow>
      code = (if \<forall>name\<in>set names. file_passes fs name then 0 else 1) \<and>
      out = concat (map (\<lambda>name. fst (projr (lint fs name))) names))"
proof -
  have "main fs [prog] = Inr ([Usage (''usage: '' @ prog @ '' FILE ...'' @ [NL])], 0)"
    by (simp add: main_def)
  moreover have "code = (if \<forall>name\<in>set names. file_passes fs name then 0 else 1) \<and>
      out = concat (map (\<lambda>name. fst (projr (lint fs name))) names)"
    if "names \<noteq> []" and "main fs (prog # names) = Inr (out, code)"
  proof -
    from that have "lint_args fs names (if True then 0 else 1) = Inr (out, code)"
      by (simp add: main_def)
    from lint_args_status [OF this] show ?thesis by simp
  qed
  ultimately show ?thesis by blast
qed

lemma main_exit_status_examples:
  "main [''a'' \<mapsto> ''x'' @ [NL], ''b'' \<mapsto> ''x '' @ [NL]] [''lint''] =
     Inr ([Usage (''usage: lint FILE ...'' @ [NL])], 0) \<and>
   main [''a'' \<mapsto> ''x'' @ [NL], ''b'' \<mapsto> ''x '' @ [NL]] [''lint'', ''a''] = Inr ([], 0) \<and>
   main [''a'' \<mapsto> ''x'' @ [NL], ''b'' \<mapsto> ''x '' @ [NL]] [''lint'', ''a'', ''b''] =
     Inr ([Diagnostic \<lparr>d_file = ''b'', d_line = 1, d_col = 2,
                        d_msg = ''trailing whitespace''\<rparr>], 1) \<and>
   main [''a'' \<mapsto> ''x'' @ [NL], ''b'' \<mapsto> ''x '' @ [NL]] [''lint'', ''a'', ''c''] =
     Inr ([Perror ''c''], 1) \<and>
   file_passes [''a'' \<mapsto> ''x'' @ [NL], ''b'' \<mapsto> ''x '' @ [NL]] ''a'' \<and>
   \<not> file_passes [''a'' \<mapsto> ''x'' @ [NL], ''b'' \<mapsto> ''x '' @ [NL]] ''b'' \<and>
   \<not> file_passes [''a'' \<mapsto> ''x'' @ [NL], ''b'' \<mapsto> ''x '' @ [NL]] ''c''"
proof -
  let ?fs = "[''a'' \<mapsto> ''x'' @ [NL], ''b'' \<mapsto> ''x '' @ [NL]]"
  have m1: "main ?fs [''lint'', ''a''] = Inr ([], 0)"
    by code_simp
  have m2: "main ?fs [''lint'', ''a'', ''b''] =
     Inr ([Diagnostic \<lparr>d_file = ''b'', d_line = 1, d_col = 2,
                        d_msg = ''trailing whitespace''\<rparr>], 1)"
    by code_simp
  have m3: "main ?fs [''lint'', ''a'', ''c''] = Inr ([Perror ''c''], 1)"
    by code_simp
  have a: "file_passes ?fs ''a''"
    by code_simp
  have b: "\<not> file_passes ?fs ''b''"
    by code_simp
  have c: "\<not> file_passes ?fs ''c''"
    by code_simp
  from main_exit_status_when_returning [of ?fs "''lint''" "[''a'', ''b'']"
      "[Diagnostic \<lparr>d_file = ''b'', d_line = 1, d_col = 2,
                        d_msg = ''trailing whitespace''\<rparr>]" 1]
    m1 m2 m3 a b c
  show ?thesis
    by simp
qed

text \<open>
  C9. A run of the program has no exit status of 0 or 1 when a file stops the scan at an
  assertion. File \<open>a\<close> has a content violation, and alone gives status 1; with the file
  \<open>b\<close> after it, whose first line is a lone closing delimiter, the process stops at
  \<^verbatim>\<open>assert(state->depth >= 0)\<close> instead of returning 1.
\<close>

theorem main_stops_at_assertion_after_violation:
  "main [''a'' \<mapsto> ''x '' @ [NL], ''b'' \<mapsto> '')'' @ [NL] @ ''x'' @ [NL]] [''lint'', ''a''] =
     Inr ([Diagnostic \<lparr>d_file = ''a'', d_line = 1, d_col = 2,
                        d_msg = ''trailing whitespace''\<rparr>], 1) \<and>
   main [''a'' \<mapsto> ''x '' @ [NL], ''b'' \<mapsto> '')'' @ [NL] @ ''x'' @ [NL]]
     [''lint'', ''a'', ''b''] = Inl Assert_depth_nonneg"
  by code_simp

subsection \<open>Identical names and identical ids in the scanner\<close>

lemma fail_import_fields [simp]:
  "filename (fail s i m) = filename s"
  "lineno (fail s i m) = lineno s"
  "last_import_name (fail s i m) = last_import_name s"
  "last_import_id (fail s i m) = last_import_id s"
  "stack (fail s i m) = stack s"
  "word_start (fail sc i m) = word_start sc"
  "printed (fail s i m) =
     printed s @ [\<lparr>d_file = filename s, d_line = lineno s, d_col = i + 1, d_msg = m\<rparr>]"
  by (simp_all add: fail_def)


lemma two_spaces_check_import_fields [simp]:
  "filename (two_spaces_check i c sc) = filename sc"
  "lineno (two_spaces_check i c sc) = lineno sc"
  "import_mode (two_spaces_check i c sc) = import_mode sc"
  "last_import_name (two_spaces_check i c sc) = last_import_name sc"
  "last_import_id (two_spaces_check i c sc) = last_import_id sc"
  "word_start (two_spaces_check i c sc) = word_start sc"
  by (simp_all add: two_spaces_check_def)


lemma close_checks_import_fields [simp]:
  "filename (close_checks i sc) = filename sc"
  "lineno (close_checks i sc) = lineno sc"
  "import_mode (close_checks i sc) = import_mode sc"
  "last_import_name (close_checks i sc) = last_import_name sc"
  "word_start (close_checks i sc) = word_start sc"
  by (simp_all add: close_checks_def Let_def)


lemma printed_advance [simp]: "printed (advance i c sc) = printed sc"
  by (simp add: advance_def Let_def)

lemma import_mode_advance [simp]: "import_mode (advance i c sc) = import_mode sc"
  by (simp add: advance_def Let_def)

lemma apply_rules_import_fields [simp]:
  "filename (apply_rules rules d i c sc) = filename sc"
  "lineno (apply_rules rules d i c sc) = lineno sc"
  "import_mode (apply_rules rules d i c sc) = import_mode sc"
  "last_import_id (apply_rules rules d i c sc) = last_import_id sc"
  "printed (apply_rules rules d i c sc) = printed sc"
  by (simp_all add: apply_rules_def Let_def)








end
